theory Spec2Isabelle
  imports Main "HOL-Library.Word" "HOL-Library.Sublist"
begin

section \<open>JavaScript strings\<close>

text \<open>
  A JavaScript string is a sequence of UTF-16 code units. The regular expressions of
  \<^verbatim>\<open>realtime-hybrid.js\<close> carry neither the \<^verbatim>\<open>u\<close> nor the \<^verbatim>\<open>i\<close> flag, so they
  and \<^verbatim>\<open>String.prototype.trim\<close> work on single code units.
\<close>

type_synonym jschar = "16 word"
type_synonym jsstring = "jschar list"

text \<open>A string literal of the source (ASCII text) as code units.\<close>

definition js :: "string \<Rightarrow> jsstring" where
  "js s = map (\<lambda>c. of_nat (of_char c)) s"

text \<open>The class \<^verbatim>\<open>\w\<close>: \<^verbatim>\<open>[A-Za-z0-9_]\<close>.\<close>

definition isWordChar :: "jschar \<Rightarrow> bool" where
  "isWordChar c =
     (let n = unat c
      in (48 \<le> n \<and> n \<le> 57) \<or> (65 \<le> n \<and> n \<le> 90) \<or> n = 95 \<or> (97 \<le> n \<and> n \<le> 122))"

text \<open>
  The class \<^verbatim>\<open>\s\<close>, which is also what \<^verbatim>\<open>trim\<close> strips: the WhiteSpace and
  LineTerminator code points of ECMAScript.
\<close>

definition isWhiteSpace :: "jschar \<Rightarrow> bool" where
  "isWhiteSpace c =
     (let n = unat c
      in (9 \<le> n \<and> n \<le> 13) \<or> n = 32 \<or> n = 160 \<or> n = 5760 \<or> (8192 \<le> n \<and> n \<le> 8202)
         \<or> n = 8232 \<or> n = 8233 \<or> n = 8239 \<or> n = 8287 \<or> n = 12288 \<or> n = 65279)"

definition trim :: "jsstring \<Rightarrow> jsstring" where
  "trim s = rev (dropWhile isWhiteSpace (rev (dropWhile isWhiteSpace s)))"

text \<open>JavaScript truthiness of a string value that may be absent: present and not empty.\<close>

fun truthy :: "jsstring option \<Rightarrow> bool" where
  "truthy None = False"
| "truthy (Some s) = (s \<noteq> [])"

section \<open>expandAbbreviations\<close>

text \<open>
  Each of the eight regular expressions has the shape \<^verbatim>\<open>/\bTOK\b(?=\s|,|$)/g\<close>.
  \<^verbatim>\<open>\b\<close> holds where exactly one of the code units before and after the position is a
  word character (the start and the end of the input count as non-word).
\<close>

fun wordOpt :: "jschar option \<Rightarrow> bool" where
  "wordOpt None = False"
| "wordOpt (Some c) = isWordChar c"

fun headOpt :: "jsstring \<Rightarrow> jschar option" where
  "headOpt [] = None"
| "headOpt (c # cs) = Some c"

definition atWordBoundary :: "jschar option \<Rightarrow> jschar option \<Rightarrow> bool" where
  "atWordBoundary before after = (wordOpt before \<noteq> wordOpt after)"

definition comma :: jschar where
  "comma = 44"

text \<open>The lookahead \<^verbatim>\<open>(?=\s|,|$)\<close> on the rest of the input (no \<^verbatim>\<open>m\<close> flag: \<^verbatim>\<open>$\<close> is the end).\<close>

fun lookahead :: "jsstring \<Rightarrow> bool" where
  "lookahead [] = True"
| "lookahead (c # cs) = (isWhiteSpace c \<or> c = comma)"

text \<open>
  \<^verbatim>\<open>\bTOK\b(?=\s|,|$)\<close> matched at the current position: \<open>prev\<close> is the code unit just
  before the position (\<open>None\<close> at the start of the input), \<open>s\<close> the input from the
  position on.
\<close>

definition matchesAt :: "jsstring \<Rightarrow> jschar option \<Rightarrow> jsstring \<Rightarrow> bool" where
  "matchesAt tok prev s =
     (atWordBoundary prev (headOpt s) \<and>
      take (length tok) s = tok \<and>
      (let rest = drop (length tok) s
       in atWordBoundary (if tok = [] then prev else Some (last tok)) (headOpt rest) \<and>
          lookahead rest))"

text \<open>
  \<^verbatim>\<open>text.replace(/\bTOK\b(?=\s|,|$)/g, REP)\<close>: the global replace scans from left to
  right; at a match it emits the replacement and goes on after the match, otherwise it
  copies one code unit.
\<close>

function replaceAbbrev :: "jsstring \<Rightarrow> jsstring \<Rightarrow> jschar option \<Rightarrow> jsstring \<Rightarrow> jsstring" where
  "replaceAbbrev tok rep prev [] = []"
| "replaceAbbrev tok rep prev (c # cs) =
     (if tok \<noteq> [] \<and> matchesAt tok prev (c # cs)
      then rep @ replaceAbbrev tok rep (Some (last tok)) (drop (length tok) (c # cs))
      else c # replaceAbbrev tok rep (Some c) cs)"
  by pat_completeness auto
termination
  by (relation "measure (\<lambda>(tok, rep, prev, s). length s)") auto

definition expandAbbreviations :: "jsstring \<Rightarrow> jsstring" where
  "expandAbbreviations text =
     replaceAbbrev (js ''Pl'') (js ''Place'') None
      (replaceAbbrev (js ''Ct'') (js ''Court'') None
       (replaceAbbrev (js ''Ln'') (js ''Lane'') None
        (replaceAbbrev (js ''Rd'') (js ''Road'') None
         (replaceAbbrev (js ''Dr'') (js ''Drive'') None
          (replaceAbbrev (js ''Blvd'') (js ''Boulevard'') None
           (replaceAbbrev (js ''Ave'') (js ''Avenue'') None
            (replaceAbbrev (js ''St'') (js ''Street'') None text)))))))"

subsection \<open>The abbreviation table of the specification\<close>

text \<open>
  The specification describes the normalisation as one pass over the text with a fixed
  table: a token of the table is expanded where it starts at a word boundary and is
  followed by whitespace, a comma or the end of the string; every other code unit is
  copied.
\<close>

definition abbreviationTable :: "(jsstring \<times> jsstring) list" where
  "abbreviationTable =
     [(js ''St'', js ''Street''), (js ''Ave'', js ''Avenue''), (js ''Blvd'', js ''Boulevard''),
      (js ''Dr'', js ''Drive''), (js ''Rd'', js ''Road''), (js ''Ln'', js ''Lane''),
      (js ''Ct'', js ''Court''), (js ''Pl'', js ''Place'')]"

definition followedByBoundary :: "jsstring \<Rightarrow> bool" where
  "followedByBoundary rest =
     (case rest of [] \<Rightarrow> True | c # cs \<Rightarrow> isWhiteSpace c \<or> c = comma)"

definition tokenAt :: "jsstring \<Rightarrow> jschar option \<Rightarrow> jsstring \<Rightarrow> bool" where
  "tokenAt tok prev s =
     (tok \<noteq> [] \<and> atWordBoundary prev (headOpt s) \<and> take (length tok) s = tok \<and>
      followedByBoundary (drop (length tok) s))"

function expandWith :: "(jsstring \<times> jsstring) list \<Rightarrow> jschar option \<Rightarrow> jsstring \<Rightarrow> jsstring" where
  "expandWith table prev [] = []"
| "expandWith table prev (c # cs) =
     (case find (\<lambda>entry. tokenAt (fst entry) prev (c # cs)) table of
        Some entry \<Rightarrow>
          snd entry @ expandWith table (Some (last (fst entry))) (drop (length (fst entry)) (c # cs))
      | None \<Rightarrow> c # expandWith table (Some c) cs)"
  by pat_completeness auto
termination
proof (relation "measure (\<lambda>(table, prev, s). length s)")
  fix table :: "(jsstring \<times> jsstring) list" and prev :: "jschar option"
    and c :: jschar and cs :: jsstring and entry :: "jsstring \<times> jsstring"
  assume "find (\<lambda>entry. tokenAt (fst entry) prev (c # cs)) table = Some entry"
  then have "tokenAt (fst entry) prev (c # cs)"
    by (auto simp: find_Some_iff)
  then have "fst entry \<noteq> []"
    by (simp add: tokenAt_def)
  then show "((table, Some (last (fst entry)), drop (length (fst entry)) (c # cs)), table, prev, c # cs)
       \<in> measure (\<lambda>(table, prev, s). length s)"
    by simp
qed simp_all

definition expandSpec :: "jsstring \<Rightarrow> jsstring" where
  "expandSpec text = expandWith abbreviationTable None text"

text \<open>Auxiliary notions for the comparison of the two: words and tables made of words.\<close>

definition wordString :: "jsstring \<Rightarrow> bool" where
  "wordString w = (w \<noteq> [] \<and> list_all isWordChar w)"

definition wfTable :: "(jsstring \<times> jsstring) list \<Rightarrow> bool" where
  "wfTable T = list_all (\<lambda>e. wordString (fst e) \<and> wordString (snd e)) T"

definition expandWord :: "(jsstring \<times> jsstring) list \<Rightarrow> jsstring \<Rightarrow> jsstring \<Rightarrow> jsstring" where
  "expandWord T w rest =
     (case (if followedByBoundary rest then map_of T w else None) of Some rep \<Rightarrow> rep | None \<Rightarrow> w)"

section \<open>Session state, external services and observable effects\<close>

datatype role = User | Assistant | System

record turn =
  role :: role
  content :: jsstring

text \<open>The markers \<^verbatim>\<open>SIGNAL:<NAME>\<close> written to standard output for the supervising agent.\<close>

datatype signal = LEAVE_MEETING | MUTED | UNMUTED | PAUSED | RESUMED

text \<open>One constructor for each other \<^verbatim>\<open>console.log\<close> or \<^verbatim>\<open>console.error\<close> line.\<close>

datatype console =
    SessionCreatedLine
  | SessionConfiguredLine
  | SpeechDetectedLine
  | SpeechEndedLine
  | UserLine jsstring
  | ErrorLine jsstring
  | StillProcessingLine
  | ClawLine jsstring
  | ResponseErrorLine jsstring
  | ToolCallLine jsstring
  | LeavingLine
  | AlreadyMutedLine
  | MutedLine
  | AlreadyUnmutedLine
  | UnmutedLine
  | PausedLine
  | ResumedLine
  | NoQueryLine
  | NoExaKeyLine
  | SearchingLine jsstring
  | GotResultsLine nat
  | SearchErrorLine jsstring
  | UnknownToolLine jsstring
  | MutedSkippingLine
  | StartingCaptureLine
  | CaptureStartedLine

text \<open>
  What the process does to the outside, in the order in which it happens: console lines,
  the requests to the three services, the audio played into the meeting, the forced-exit
  timer and the start of the capture process.
\<close>

datatype effect =
    Console console
  | Signal signal
  | ChatRequest "turn list"
  | SearchRequest jsstring int
  | SpeechRequest jsstring
  | Playback jsstring
  | ExitTimer nat
  | CaptureSpawned

text \<open>
  The module-level variables \<^verbatim>\<open>conversationHistory\<close>, \<^verbatim>\<open>isProcessingResponse\<close>,
  \<^verbatim>\<open>isMuted\<close> and \<^verbatim>\<open>isPaused\<close>, together with the effects so far and the number of
  service requests issued so far.
\<close>

record session =
  conversationHistory :: "turn list"
  isProcessingResponse :: bool
  isMuted :: bool
  isPaused :: bool
  effects :: "effect list"
  requests :: nat

definition initialSession :: session where
  "initialSession =
     \<lparr>conversationHistory = [], isProcessingResponse = False, isMuted = False,
      isPaused = False, effects = [], requests = 0\<rparr>"

definition emit :: "effect \<Rightarrow> session \<Rightarrow> session" where
  "emit e s = s\<lparr>effects := effects s @ [e]\<rparr>"

definition requested :: "effect \<Rightarrow> session \<Rightarrow> session" where
  "requested e s = s\<lparr>effects := effects s @ [e], requests := requests s + 1\<rparr>"

text \<open>
  A tool call of the chat completion. \<^verbatim>\<open>toolCall.function.arguments\<close> is JSON text:
  absent or empty (the handler then uses \<^verbatim>\<open>{}\<close>), text on which \<^verbatim>\<open>JSON.parse\<close> throws, or
  an object with an optional \<^verbatim>\<open>query\<close> and an optional integer \<^verbatim>\<open>count\<close>.
\<close>

datatype toolArguments = ArgsAbsent | ArgsMalformed jsstring | Args "jsstring option" "int option"

datatype toolCall = ToolCall (funcName: jsstring) (arguments: toolArguments)

text \<open>The replies of the services: a promise is rejected with a message or resolved.\<close>

datatype chatReply = ChatFailed jsstring | ChatMessage "jsstring option" "toolCall list option"

record rawResult =
  raw_title :: "jsstring option"
  raw_summary :: "jsstring option"
  raw_text :: "jsstring option"
  raw_url :: "jsstring option"

datatype exaReply = ExaFailed jsstring | ExaResults "rawResult list option"

datatype ttsReply = TtsPlayed | TtsFailed jsstring

text \<open>
  The configuration read from the environment and the services. A service answers
  according to the number of requests issued before and to the request itself, so that
  any finite behaviour of the outside can be written down.
\<close>

record env =
  EXA_API_KEY :: "jsstring option"
  SYSTEM_PROMPT :: jsstring
  openai :: "nat \<Rightarrow> turn list \<Rightarrow> chatReply"
  exa :: "nat \<Rightarrow> jsstring \<Rightarrow> int \<Rightarrow> exaReply"
  elevenlabs :: "nat \<Rightarrow> jsstring \<Rightarrow> ttsReply"

text \<open>An awaited call returns a value or throws; the session it leaves behind is kept in both cases.\<close>

datatype 'a outcome = Returned 'a | Threw jsstring

definition andThen ::
  "'a outcome \<times> session \<Rightarrow> ('a \<Rightarrow> session \<Rightarrow> 'b outcome \<times> session) \<Rightarrow> 'b outcome \<times> session" where
  "andThen r k = (case r of (Returned x, s) \<Rightarrow> k x s | (Threw e, s) \<Rightarrow> (Threw e, s))"

text \<open>\<^verbatim>\<open>try { ... } catch (err) { ... }\<close>: the handler runs on the session the block left behind.\<close>

definition catchError ::
  "'a outcome \<times> session \<Rightarrow> (jsstring \<Rightarrow> session \<Rightarrow> 'a outcome \<times> session) \<Rightarrow> 'a outcome \<times> session" where
  "catchError r handler = (case r of (Returned x, s) \<Rightarrow> (Returned x, s) | (Threw e, s) \<Rightarrow> handler e s)"

text \<open>\<^verbatim>\<open>Array.prototype.slice(start, end)\<close> with integer arguments.\<close>

definition jsSlice :: "'a list \<Rightarrow> int \<Rightarrow> int option \<Rightarrow> 'a list" where
  "jsSlice xs start end =
     (let len = int (length xs);
          k = (if start < 0 then max (len + start) 0 else min start len);
          final = (case end of None \<Rightarrow> len
                   | Some e \<Rightarrow> if e < 0 then max (len + e) 0 else min e len)
      in take (nat (final - k)) (drop (nat k) xs))"

section \<open>The services\<close>

definition speakElevenLabs :: "env \<Rightarrow> jsstring \<Rightarrow> session \<Rightarrow> unit outcome \<times> session" where
  "speakElevenLabs env text s =
     (if isMuted s then (Returned (), emit (Console MutedSkippingLine) s)
      else
        let processedText = expandAbbreviations text;
            s1 = requested (SpeechRequest processedText) s
        in case elevenlabs env (requests s) processedText of
             TtsPlayed \<Rightarrow> (Returned (), emit (Playback processedText) s1)
           | TtsFailed e \<Rightarrow> (Threw e, s1))"

definition generateResponse ::
  "env \<Rightarrow> session \<Rightarrow> (jsstring option \<times> toolCall list option) outcome \<times> session" where
  "generateResponse env s =
     (let messages = \<lparr>role = System, content = SYSTEM_PROMPT env\<rparr> # conversationHistory s;
          s1 = requested (ChatRequest messages) s
      in case openai env (requests s) messages of
           ChatFailed e \<Rightarrow> (Threw e, s1)
         | ChatMessage message_content tool_calls \<Rightarrow>
             (Returned (message_content, tool_calls), s1))"

record searchResult =
  title :: jsstring
  snippet :: jsstring
  url :: jsstring

text \<open>\<^verbatim>\<open>a || b\<close> on a string that may be absent.\<close>

definition orString :: "jsstring option \<Rightarrow> jsstring \<Rightarrow> jsstring" where
  "orString a b = (case a of None \<Rightarrow> b | Some x \<Rightarrow> if x = [] then b else x)"

definition normalizeResult :: "rawResult \<Rightarrow> searchResult" where
  "normalizeResult r =
     \<lparr>title = orString (raw_title r) [],
      snippet = orString (raw_summary r) (orString (raw_text r) []),
      url = orString (raw_url r) []\<rparr>"

definition searchExa :: "env \<Rightarrow> jsstring \<Rightarrow> int \<Rightarrow> session \<Rightarrow> searchResult list outcome \<times> session" where
  "searchExa env query count s =
     (let s1 = requested (SearchRequest query count) s
      in case exa env (requests s) query count of
           ExaFailed e \<Rightarrow> (Threw e, s1)
         | ExaResults results \<Rightarrow>
             (Returned (map normalizeResult
                (jsSlice (case results of None \<Rightarrow> [] | Some rs \<Rightarrow> rs) 0 (Some count))), s1))"

section \<open>The tool executor\<close>

definition pushTurn :: "turn \<Rightarrow> session \<Rightarrow> session" where
  "pushTurn t s = s\<lparr>conversationHistory := conversationHistory s @ [t]\<rparr>"

text \<open>
  The statements \<^verbatim>\<open>if (x.content && !isMuted) { console.log(...); conversationHistory.push(...);
  await speakElevenLabs(x.content); }\<close>, which close both \<^verbatim>\<open>handleUserSpeech\<close> and the
  \<^verbatim>\<open>web_search\<close> case.
\<close>

definition speakResponse :: "env \<Rightarrow> jsstring option \<Rightarrow> session \<Rightarrow> unit outcome \<times> session" where
  "speakResponse env message_content s =
     (case message_content of
        None \<Rightarrow> (Returned (), s)
      | Some spoken \<Rightarrow>
          if spoken \<noteq> [] \<and> \<not> isMuted s
          then speakElevenLabs env spoken
                 (pushTurn \<lparr>role = Assistant, content = spoken\<rparr> (emit (Console (ClawLine spoken)) s))
          else (Returned (), s))"

text \<open>\<^verbatim>\<open>if (!isMuted) { await speakElevenLabs(text); }\<close>\<close>

definition speakUnlessMuted :: "env \<Rightarrow> jsstring \<Rightarrow> session \<Rightarrow> unit outcome \<times> session" where
  "speakUnlessMuted env phrase s =
     (if \<not> isMuted s then speakElevenLabs env phrase s else (Returned (), s))"

function decimal :: "nat \<Rightarrow> jsstring" where
  "decimal n = (if n < 10 then [of_nat (48 + n)] else decimal (n div 10) @ [of_nat (48 + n mod 10)])"
  by pat_completeness auto
termination
  by (relation "measure id") auto

declare decimal.simps [simp del]

fun joinWith :: "jsstring \<Rightarrow> jsstring list \<Rightarrow> jsstring" where
  "joinWith sep [] = []"
| "joinWith sep [x] = x"
| "joinWith sep (x # y # ys) = x @ sep @ joinWith sep (y # ys)"

text \<open>\<^verbatim>\<open>results.map((r, i) => `${i+1}. ${r.title}: ${r.snippet}`)\<close>, from index \<open>i\<close> on.\<close>

fun numbered :: "nat \<Rightarrow> searchResult list \<Rightarrow> jsstring list" where
  "numbered i [] = []"
| "numbered i (r # rs) =
     (decimal (i + 1) @ js ''. '' @ title r @ js '': '' @ snippet r) # numbered (i + 1) rs"

definition searchedMarker :: "jsstring \<Rightarrow> turn" where
  "searchedMarker searchQuery =
     \<lparr>role = Assistant, content = js ''[Searched for \"'' @ searchQuery @ js ''\"]''\<rparr>"

definition searchResultsMessage :: "searchResult list \<Rightarrow> turn" where
  "searchResultsMessage results =
     \<lparr>role = System,
      content = js ''Search results:\<newline>'' @ joinWith (js ''\<newline>'') (numbered 0 results) @
        js ''\<newline>\<newline>RULES: Answer ONLY what was asked. For places/venues, list 2-3 options with name and address only. Example format: \"There's [Name] at [Address], [Name] at [Address], and [Name] at [Address].\" No explanations, no suggestions, no filler. One sentence.''\<rparr>"

text \<open>The \<^verbatim>\<open>try\<close> block of the \<^verbatim>\<open>web_search\<close> case, after the arguments are parsed.\<close>

definition webSearch :: "env \<Rightarrow> jsstring option \<Rightarrow> int option \<Rightarrow> session \<Rightarrow> unit outcome \<times> session" where
  "webSearch env searchQuery argsCount s =
     (let searchCount = (case argsCount of None \<Rightarrow> 3 | Some n \<Rightarrow> if n = 0 then 3 else n)
      in case searchQuery of
           None \<Rightarrow> (Returned (), emit (Console NoQueryLine) s)
         | Some q \<Rightarrow>
             if q = [] then (Returned (), emit (Console NoQueryLine) s)
             else if \<not> truthy (EXA_API_KEY env)
             then speakUnlessMuted env (js ''Web search isn't configured.'') (emit (Console NoExaKeyLine) s)
             else
               andThen (searchExa env q searchCount (emit (Console (SearchingLine q)) s))
                 (\<lambda>results s1.
                    if results = []
                    then speakUnlessMuted env (js ''I couldn't find any results for that.'') s1
                    else
                      andThen
                        (generateResponse env
                           (pushTurn (searchResultsMessage results)
                              (pushTurn (searchedMarker q)
                                 (emit (Console (GotResultsLine (length results))) s1))))
                        (\<lambda>summary s2. speakResponse env (fst summary) s2)))"

definition webSearchTry :: "env \<Rightarrow> toolArguments \<Rightarrow> session \<Rightarrow> unit outcome \<times> session" where
  "webSearchTry env args s =
     (case args of
        ArgsAbsent \<Rightarrow> webSearch env None None s
      | ArgsMalformed e \<Rightarrow> (Threw e, s)
      | Args searchQuery argsCount \<Rightarrow> webSearch env searchQuery argsCount s)"

definition handleToolCall :: "env \<Rightarrow> toolCall \<Rightarrow> session \<Rightarrow> unit outcome \<times> session" where
  "handleToolCall env toolCall s =
     (let name = funcName toolCall;
          s0 = emit (Console (ToolCallLine name)) s
      in if name = js ''leave_meeting'' then
           andThen (speakUnlessMuted env (js ''Okay, signing off!'') (emit (Console LeavingLine) s0))
             (\<lambda>u s1. (Returned (),
                 emit (ExitTimer 60000) ((emit (Signal LEAVE_MEETING) s1)\<lparr>isPaused := True\<rparr>)))
         else if name = js ''mute_self'' then
           (if isMuted s0 then (Returned (), emit (Console AlreadyMutedLine) s0)
            else (Returned (), emit (Signal MUTED) (emit (Console MutedLine) (s0\<lparr>isMuted := True\<rparr>))))
         else if name = js ''unmute_self'' then
           (if \<not> isMuted s0 then (Returned (), emit (Console AlreadyUnmutedLine) s0)
            else (Returned (), emit (Signal UNMUTED) (emit (Console UnmutedLine) (s0\<lparr>isMuted := False\<rparr>))))
         else if name = js ''pause_listening'' then
           speakUnlessMuted env (js ''I'll stop listening now. Say my name when you want me back.'')
             (emit (Signal PAUSED) (emit (Console PausedLine) (s0\<lparr>isPaused := True\<rparr>)))
         else if name = js ''resume_listening'' then
           speakUnlessMuted env (js ''I'm listening again. How can I help?'')
             (emit (Signal RESUMED) (emit (Console ResumedLine) (s0\<lparr>isPaused := False\<rparr>)))
         else if name = js ''web_search'' then
           catchError (webSearchTry env (arguments toolCall) s0)
             (\<lambda>e s1. speakUnlessMuted env (js ''Sorry, the search failed.'')
                        (emit (Console (SearchErrorLine e)) s1))
         else (Returned (), emit (Console (UnknownToolLine name)) s0))"

text \<open>\<^verbatim>\<open>for (const toolCall of result.tool_calls) { await handleToolCall(toolCall); }\<close>\<close>

fun runToolCalls :: "env \<Rightarrow> toolCall list \<Rightarrow> session \<Rightarrow> unit outcome \<times> session" where
  "runToolCalls env [] s = (Returned (), s)"
| "runToolCalls env (toolCall # rest) s =
     andThen (handleToolCall env toolCall s) (\<lambda>u s1. runToolCalls env rest s1)"

section \<open>The session controller\<close>

text \<open>
  Every handler is written as it runs from its call to its end. In the program a handler
  is suspended at each \<^verbatim>\<open>await\<close> and the handlers of other events run meanwhile; such
  a handler finds the session as the suspended one left it, for instance with
  \<^verbatim>\<open>isProcessingResponse\<close> set. The properties below therefore hold for every session a
  handler may find, not only for those between two cycles.
\<close>

text \<open>The user turn is pushed and the history is cut to its last 20 entries.\<close>

definition appendUserTurn :: "jsstring \<Rightarrow> session \<Rightarrow> session" where
  "appendUserTurn transcript s =
     (let h = conversationHistory s @ [\<lparr>role = User, content = transcript\<rparr>]
      in s\<lparr>conversationHistory := (if length h > 20 then jsSlice h (- 20) None else h)\<rparr>)"

definition checkToolCalls :: "env \<Rightarrow> toolCall list option \<Rightarrow> session \<Rightarrow> unit outcome \<times> session" where
  "checkToolCalls env tool_calls s =
     (case tool_calls of
        None \<Rightarrow> (Returned (), s)
      | Some calls \<Rightarrow> if length calls > 0 then runToolCalls env calls s else (Returned (), s))"

text \<open>
  The \<^verbatim>\<open>try\<close> block of \<^verbatim>\<open>handleUserSpeech\<close>; the function itself adds the guard, the
  \<^verbatim>\<open>catch\<close> that logs the error and the \<^verbatim>\<open>finally\<close> that clears the flag.
\<close>

definition handleUserSpeechTry :: "env \<Rightarrow> jsstring \<Rightarrow> session \<Rightarrow> unit outcome \<times> session" where
  "handleUserSpeechTry env transcript s =
     andThen (generateResponse env (appendUserTurn transcript s))
       (\<lambda>result s1.
          andThen (checkToolCalls env (snd result) s1)
            (\<lambda>u s2. speakResponse env (fst result) s2))"

definition handleUserSpeech :: "env \<Rightarrow> jsstring \<Rightarrow> session \<Rightarrow> session" where
  "handleUserSpeech env transcript s =
     (if isProcessingResponse s then emit (Console StillProcessingLine) s
      else
        let s1 = s\<lparr>isProcessingResponse := True\<rparr>;
            s2 = snd (catchError (handleUserSpeechTry env transcript s1)
                        (\<lambda>e s'. (Returned (), emit (Console (ResponseErrorLine e)) s')))
        in s2\<lparr>isProcessingResponse := False\<rparr>)"

text \<open>The events of the transcription connection, and the handler \<^verbatim>\<open>ws.on('message')\<close>.\<close>

datatype event =
    SessionCreated
  | SessionUpdated
  | SpeechStarted
  | SpeechStopped
  | TranscriptionCompleted "jsstring option"
  | ErrorEvent jsstring
  | OtherEvent

definition startAudioCapture :: "session \<Rightarrow> session" where
  "startAudioCapture s =
     emit (Console CaptureStartedLine) (emit CaptureSpawned (emit (Console StartingCaptureLine) s))"

fun onMessage :: "env \<Rightarrow> event \<Rightarrow> session \<Rightarrow> session" where
  "onMessage env SessionCreated s = emit (Console SessionCreatedLine) s"
| "onMessage env SessionUpdated s = startAudioCapture (emit (Console SessionConfiguredLine) s)"
| "onMessage env SpeechStarted s = (if \<not> isPaused s then emit (Console SpeechDetectedLine) s else s)"
| "onMessage env SpeechStopped s = (if \<not> isPaused s then emit (Console SpeechEndedLine) s else s)"
| "onMessage env (TranscriptionCompleted transcript) s =
     (case transcript of
        None \<Rightarrow> s
      | Some spoken \<Rightarrow>
          if spoken \<noteq> [] \<and> trim spoken \<noteq> [] \<and> \<not> isPaused s
          then handleUserSpeech env spoken (emit (Console (UserLine spoken)) s)
          else s)"
| "onMessage env (ErrorEvent e) s = emit (Console (ErrorLine e)) s"
| "onMessage env OtherEvent s = s"

section \<open>Concrete scenarios\<close>

text \<open>Services that answer at once: no reply content, no search result, speech played.\<close>

definition quietEnv :: env where
  "quietEnv =
     \<lparr>EXA_API_KEY = Some (js ''exa-key''), SYSTEM_PROMPT = js ''You are Claw'',
      openai = (\<lambda>n messages. ChatMessage None None),
      exa = (\<lambda>n query count. ExaResults (Some [])),
      elevenlabs = (\<lambda>n spoken. TtsPlayed)\<rparr>"

text \<open>The response generator answers every request with the same spoken content.\<close>

definition chattyEnv :: env where
  "chattyEnv = quietEnv\<lparr>openai := (\<lambda>n messages. ChatMessage (Some (js ''Sunny today'')) None)\<rparr>"

text \<open>The speech service answers every request with an error status.\<close>

definition speechlessEnv :: env where
  "speechlessEnv = chattyEnv\<lparr>elevenlabs := (\<lambda>n spoken. TtsFailed (js ''ElevenLabs error 500: ''))\<rparr>"


definition busySession :: session where
  "busySession = initialSession\<lparr>isProcessingResponse := True\<rparr>"

definition mutedSession :: session where
  "mutedSession = initialSession\<lparr>isMuted := True\<rparr>"

definition pausedSession :: session where
  "pausedSession = initialSession\<lparr>isPaused := True\<rparr>"

text \<open>A transcript that is absent, empty or made of whitespace only.\<close>

fun blank :: "jsstring option \<Rightarrow> bool" where
  "blank None = True"
| "blank (Some spoken) = list_all isWhiteSpace spoken"

text \<open>
  A later session extends an earlier one when history and effects have only grown and the
  processing flag is the same.
\<close>

definition extends :: "session \<Rightarrow> session \<Rightarrow> bool" where
  "extends s s' =
     (isProcessingResponse s' = isProcessingResponse s \<and>
      prefix (conversationHistory s) (conversationHistory s') \<and>
      prefix (effects s) (effects s'))"

text \<open>The search service returns as many results as it is asked for.\<close>

definition sampleResult :: rawResult where
  "sampleResult =
     \<lparr>raw_title = Some (js ''Cafe''), raw_summary = Some (js ''12 Main St''), raw_text = None,
      raw_url = Some (js ''https://cafe.example'')\<rparr>"

definition generousEnv :: env where
  "generousEnv = chattyEnv\<lparr>exa := (\<lambda>n query count. ExaResults (Some (replicate (nat count) sampleResult)))\<rparr>"

text \<open>The same question asked \<open>n\<close> times, each transcription handled to its end.\<close>

fun askRepeatedly :: "env \<Rightarrow> nat \<Rightarrow> session \<Rightarrow> session" where
  "askRepeatedly env 0 s = s"
| "askRepeatedly env (Suc n) s =
     askRepeatedly env n (onMessage env (TranscriptionCompleted (Some (js ''Claw, is it sunny?''))) s)"

section \<open>Events that arrive while a handler awaits\<close>























section \<open>Properties of expandAbbreviations\<close>

lemma wordString_iff: "wordString w = (w \<noteq> [] \<and> (\<forall>x\<in>set w. isWordChar x))"
  by (simp add: wordString_def list_all_iff)

lemma wfTable_iff: "wfTable T = (\<forall>e\<in>set T. wordString (fst e) \<and> wordString (snd e))"
  by (simp add: wfTable_def list_all_iff)

text \<open>The recursive equation is unfolded by hand, where a proof needs it.\<close>

declare expandWith.simps(2) [simp del]

lemmas expandWith_Cons = expandWith.simps(2)

lemma boundary_not_word: "isWhiteSpace c \<or> c = comma \<Longrightarrow> \<not> isWordChar c"
  by (auto simp: isWhiteSpace_def isWordChar_def comma_def Let_def)

lemma followedByBoundary_simps [simp]:
  "followedByBoundary [] = True"
  "followedByBoundary (c # cs) = (isWhiteSpace c \<or> c = comma)"
  by (simp_all add: followedByBoundary_def)

lemma followedByBoundary_lookahead: "followedByBoundary rest = lookahead rest"
  by (cases rest) simp_all

lemma matchesAt_tokenAt:
  assumes "wordString tok"
  shows "(tok \<noteq> [] \<and> matchesAt tok prev s) = tokenAt tok prev s"
proof -
  have "atWordBoundary (Some (last tok)) (headOpt rest)" if "lookahead rest" for rest
  proof (cases rest)
    case Nil
    then show ?thesis using assms by (simp add: atWordBoundary_def wordString_iff)
  next
    case (Cons c cs)
    then show ?thesis using assms that boundary_not_word[of c]
      by (auto simp: atWordBoundary_def wordString_iff)
  qed
  then show ?thesis
    using assms by (auto simp: matchesAt_def tokenAt_def Let_def followedByBoundary_lookahead wordString_iff)
qed

lemma expandWith_single:
  "expandWith [(tok, rep)] prev (c # cs) =
     (if tokenAt tok prev (c # cs)
      then rep @ expandWith [(tok, rep)] (Some (last tok)) (drop (length tok) (c # cs))
      else c # expandWith [(tok, rep)] (Some c) cs)"
  by (simp add: expandWith_Cons)

lemma replaceAbbrev_expandWith:
  assumes "wordString tok"
  shows "replaceAbbrev tok rep prev s = expandWith [(tok, rep)] prev s"
proof (induction "length s" arbitrary: s prev rule: less_induct)
  case less
  show ?case
  proof (cases s)
    case Nil
    then show ?thesis by simp
  next
    case (Cons c cs)
    have tne: "tok \<noteq> []" using assms by (simp add: wordString_iff)
    show ?thesis
    proof (cases "tokenAt tok prev (c # cs)")
      case True
      then have m: "tok \<noteq> [] \<and> matchesAt tok prev (c # cs)"
        using matchesAt_tokenAt[OF assms] by simp
      have "length (drop (length tok) (c # cs)) < length s"
        using tne Cons by simp
      then have "replaceAbbrev tok rep (Some (last tok)) (drop (length tok) (c # cs))
                 = expandWith [(tok, rep)] (Some (last tok)) (drop (length tok) (c # cs))"
        by (rule less)
      then show ?thesis
        unfolding Cons replaceAbbrev.simps expandWith_single using True m by simp
    next
      case False
      then have m: "\<not> (tok \<noteq> [] \<and> matchesAt tok prev (c # cs))"
        using matchesAt_tokenAt[OF assms] by simp
      have "replaceAbbrev tok rep (Some c) cs = expandWith [(tok, rep)] (Some c) cs"
        by (rule less) (simp add: Cons)
      then show ?thesis
        unfolding Cons replaceAbbrev.simps expandWith_single using False m by auto
    qed
  qed
qed

lemma tokenAt_nonword:
  assumes "wordString tok" "\<not> isWordChar c"
  shows "\<not> tokenAt tok p (c # cs)"
proof
  assume "tokenAt tok p (c # cs)"
  then have "take (length tok) (c # cs) = tok" and "tok \<noteq> []"
    by (simp_all add: tokenAt_def)
  then have "hd tok = c"
    by (cases tok) auto
  then show False
    using assms by (cases tok) (auto simp: wordString_iff)
qed

lemma expandWith_nonword:
  assumes "wfTable T" "\<not> isWordChar c"
  shows "expandWith T p (c # cs) = c # expandWith T (Some c) cs"
proof -
  have "find (\<lambda>entry. tokenAt (fst entry) p (c # cs)) T = None"
    using assms tokenAt_nonword by (auto simp: find_None_iff wfTable_iff)
  then show ?thesis by (simp add: expandWith_Cons)
qed

lemma tokenAt_inside_word:
  assumes "wordOpt p" "isWordChar c"
  shows "\<not> tokenAt tok p (c # cs)"
  using assms by (simp add: tokenAt_def atWordBoundary_def)

lemma expandWith_inside_word:
  assumes "wordOpt p" "\<forall>x\<in>set w. isWordChar x"
  shows "expandWith T p (w @ rest) = w @ expandWith T (if w = [] then p else Some (last w)) rest"
  using assms
proof (induction w arbitrary: p)
  case Nil
  then show ?case by simp
next
  case (Cons x w)
  have "find (\<lambda>entry. tokenAt (fst entry) p (x # w @ rest)) T = None"
    using Cons.prems tokenAt_inside_word by (auto simp: find_None_iff)
  then have "expandWith T p ((x # w) @ rest) = x # expandWith T (Some x) (w @ rest)"
    by (simp add: expandWith_Cons)
  also have "expandWith T (Some x) (w @ rest) = w @ expandWith T (if w = [] then Some x else Some (last w)) rest"
    using Cons.prems by (intro Cons.IH) simp_all
  finally show ?case by simp
qed

lemma tokenAt_self:
  assumes "wordString w" "\<not> wordOpt p" "followedByBoundary rest"
  shows "tokenAt w p (w @ rest)"
proof -
  obtain x xs where w: "w = x # xs" using assms(1) by (cases w) (auto simp: wordString_iff)
  have "isWordChar x" using assms(1) w by (simp add: wordString_iff)
  then have "atWordBoundary p (headOpt (w @ rest))"
    using assms(2) w by (simp add: atWordBoundary_def)
  then show ?thesis
    using assms(3) w by (simp add: tokenAt_def)
qed

lemma tokenAt_word_run:
  assumes "wordString tok" "\<not> wordOpt p" "wordString w" "rest = [] \<or> \<not> isWordChar (hd rest)"
  shows "tokenAt tok p (w @ rest) \<longleftrightarrow> tok = w \<and> followedByBoundary rest"
proof
  assume t: "tokenAt tok p (w @ rest)"
  then have tk: "take (length tok) (w @ rest) = tok"
    and fb: "followedByBoundary (drop (length tok) (w @ rest))"
    by (simp_all add: tokenAt_def)
  consider "length tok < length w" | "length tok = length w" | "length w < length tok"
    by linarith
  then show "tok = w \<and> followedByBoundary rest"
  proof cases
    case 1
    then obtain x xs where d: "drop (length tok) w = x # xs"
      by (cases "drop (length tok) w") auto
    then have "x \<in> set w"
      by (metis in_set_dropD list.set_intros(1))
    then have "isWordChar x"
      using assms(3) by (simp add: wordString_iff)
    moreover have "followedByBoundary (x # xs @ rest)"
      using fb d 1 by simp
    ultimately show ?thesis
      using boundary_not_word[of x] by simp
  next
    case 2
    have "take (length w) (w @ rest) = w" by simp
    then have "tok = w" using tk unfolding 2 by simp
    moreover have "drop (length w) (w @ rest) = rest" by simp
    then have "followedByBoundary rest" using fb unfolding 2 by simp
    ultimately show ?thesis by simp
  next
    case 3
    define n where "n = length tok - length w"
    have "take (length tok) (w @ rest) = w @ take n rest"
      using 3 by (simp add: n_def)
    then have tok_eq: "tok = w @ take n rest"
      using tk by simp
    have "n > 0"
      using 3 by (simp add: n_def)
    have "rest \<noteq> []"
    proof
      assume "rest = []"
      then have "length tok = length w"
        using tok_eq by simp
      then show False using 3 by simp
    qed
    then obtain c cs where r: "rest = c # cs"
      by (cases rest) auto
    obtain m where "n = Suc m"
      using \<open>n > 0\<close> by (cases n) auto
    then have "c \<in> set tok"
      using tok_eq r by simp
    then show ?thesis
      using assms(1,4) r by (auto simp: wordString_iff)
  qed
next
  assume "tok = w \<and> followedByBoundary rest"
  then show "tokenAt tok p (w @ rest)"
    using tokenAt_self[of w p rest] assms by simp
qed

lemma find_fst_map_of: "find (\<lambda>e. fst e = w) T = map_option (Pair w) (map_of T w)"
  by (induction T) auto

lemma expandWith_word_run:
  assumes "wfTable T" "\<not> wordOpt p" "wordString w" "rest = [] \<or> \<not> isWordChar (hd rest)"
  shows "expandWith T p (w @ rest) = expandWord T w rest @ expandWith T (Some (last w)) rest"
proof -
  obtain x xs where w: "w = x # xs"
    using assms(3) by (cases w) (auto simp: wordString_iff)
  have wx: "isWordChar x" "\<forall>y\<in>set xs. isWordChar y"
    using assms(3) w by (simp_all add: wordString_iff)
  have f: "find (\<lambda>e. tokenAt (fst e) p (w @ rest)) T
         = find (\<lambda>e. fst e = w \<and> followedByBoundary rest) T"
    by (rule find_cong) (use assms tokenAt_word_run in \<open>auto simp: wfTable_iff\<close>)
  have unfold: "expandWith T p (w @ rest) =
     (case find (\<lambda>e. fst e = w \<and> followedByBoundary rest) T of
        Some entry \<Rightarrow> snd entry @ expandWith T (Some (last (fst entry))) (drop (length (fst entry)) (w @ rest))
      | None \<Rightarrow> x # expandWith T (Some x) (xs @ rest))"
    using f unfolding w by (simp add: expandWith_Cons cong: option.case_cong)
  have inside: "x # expandWith T (Some x) (xs @ rest) = w @ expandWith T (Some (last w)) rest"
    using expandWith_inside_word[of "Some x" xs T rest] wx unfolding w by simp
  show ?thesis
  proof (cases "followedByBoundary rest")
    case False
    then have "find (\<lambda>e. fst e = w \<and> followedByBoundary rest) T = None"
      by (simp add: find_None_iff)
    then show ?thesis
      unfolding unfold using inside False by (simp add: expandWord_def)
  next
    case True
    show ?thesis
    proof (cases "map_of T w")
      case None
      then have "find (\<lambda>e. fst e = w \<and> followedByBoundary rest) T = None"
        using True find_fst_map_of[of w T] by simp
      then show ?thesis
        unfolding unfold using inside None True by (simp add: expandWord_def)
    next
      case (Some rep)
      then have "find (\<lambda>e. fst e = w \<and> followedByBoundary rest) T = Some (w, rep)"
        using True find_fst_map_of[of w T] by simp
      then show ?thesis
        unfolding unfold using Some True by (simp add: expandWord_def)
    qed
  qed
qed

lemma expandWord_wordString:
  assumes "wfTable T" "wordString w"
  shows "wordString (expandWord T w rest)"
proof (cases "if followedByBoundary rest then map_of T w else None")
  case None
  then show ?thesis using assms by (simp add: expandWord_def)
next
  case (Some rep)
  then have "map_of T w = Some rep"
    by (simp split: if_splits)
  then have "(w, rep) \<in> set T"
    by (rule map_of_SomeD)
  then show ?thesis
    using assms Some by (auto simp: expandWord_def wfTable_iff)
qed

lemma expandWord_compose:
  assumes "wfTable T" "tok \<notin> snd ` set T"
    and "followedByBoundary rest' = followedByBoundary rest"
  shows "expandWord [(tok, rep)] (expandWord T w rest) rest' = expandWord (T @ [(tok, rep)]) w rest"
proof (cases "followedByBoundary rest")
  case False
  then show ?thesis using assms(3) by (simp add: expandWord_def)
next
  case True
  show ?thesis
  proof (cases "map_of T w")
    case None
    then show ?thesis using True assms(3) by (simp add: expandWord_def map_add_def)
  next
    case (Some r)
    then have "(w, r) \<in> set T"
      by (rule map_of_SomeD)
    then have "r \<noteq> tok"
      using assms(2) by force
    then show ?thesis using Some True assms(3) by (simp add: expandWord_def map_add_def)
  qed
qed

lemma string_shape:
  fixes s :: jsstring
  obtains "s = []"
  | c cs where "s = c # cs" "\<not> isWordChar c"
  | w where "s = w" "wordString w"
  | w c cs where "s = w @ c # cs" "wordString w" "\<not> isWordChar c"
proof (cases s)
  case Nil
  then show ?thesis using that by simp
next
  case (Cons a as)
  show ?thesis
  proof (cases "isWordChar a")
    case False
    then show ?thesis using that Cons by simp
  next
    case True
    define w where "w = takeWhile isWordChar s"
    define rest where "rest = dropWhile isWordChar s"
    have s: "s = w @ rest" by (simp add: w_def rest_def)
    have ww: "wordString w"
      using True Cons by (auto simp: w_def wordString_iff dest: set_takeWhileD)
    show ?thesis
    proof (cases rest)
      case Nil
      then show ?thesis using that(3) s ww by simp
    next
      case (Cons c cs)
      then have "\<not> isWordChar c"
        using hd_dropWhile[of isWordChar s] by (simp add: rest_def)
      then show ?thesis using that(4) s ww Cons by simp
    qed
  qed
qed

lemma wfTable_append: "wfTable (T @ U) = (wfTable T \<and> wfTable U)"
  by (auto simp: wfTable_iff)

lemma expandWith_compose:
  assumes "wfTable T" "wordString tok" "wordString rep" "tok \<notin> snd ` set T" "\<not> wordOpt p"
  shows "expandWith [(tok, rep)] p (expandWith T p s) = expandWith (T @ [(tok, rep)]) p s"
  using assms(5)
proof (induction "length s" arbitrary: s p rule: less_induct)
  case less
  have wf1: "wfTable [(tok, rep)]"
    using assms by (simp add: wfTable_iff)
  have wf2: "wfTable (T @ [(tok, rep)])"
    using assms wf1 by (simp add: wfTable_append)
  show ?case
  proof (cases s rule: string_shape)
    case 1
    then show ?thesis by simp
  next
    case (2 c cs)
    have "expandWith [(tok, rep)] (Some c) (expandWith T (Some c) cs)
        = expandWith (T @ [(tok, rep)]) (Some c) cs"
      using 2 by (intro less) simp_all
    then show ?thesis
      using 2 assms(1) wf1 wf2 by (simp add: expandWith_nonword)
  next
    case (3 w)
    have a: "expandWith T p (w @ []) = expandWord T w []"
      using expandWith_word_run[of T p w "[]"] assms(1) less.prems 3 by simp
    have b: "expandWith [(tok, rep)] p (expandWord T w [] @ []) = expandWord [(tok, rep)] (expandWord T w []) []"
      using expandWith_word_run[of "[(tok, rep)]" p "expandWord T w []" "[]"] wf1 less.prems
        expandWord_wordString[OF assms(1) 3(2)] by simp
    have c: "expandWith (T @ [(tok, rep)]) p (w @ []) = expandWord (T @ [(tok, rep)]) w []"
      using expandWith_word_run[of "T @ [(tok, rep)]" p w "[]"] wf2 less.prems 3 by simp
    show ?thesis
      using a b c expandWord_compose[OF assms(1,4), of "[]" "[]" rep w] 3(1) by simp
  next
    case (4 w c cs)
    have ih: "expandWith [(tok, rep)] (Some c) (expandWith T (Some c) cs)
        = expandWith (T @ [(tok, rep)]) (Some c) cs"
      using 4 by (intro less) simp_all
    let ?X = "expandWith T (Some c) cs"
    have a: "expandWith T p (w @ c # cs) = expandWord T w (c # cs) @ c # ?X"
      using expandWith_word_run[of T p w "c # cs"] assms(1) less.prems 4
      by (simp add: expandWith_nonword)
    have b: "expandWith [(tok, rep)] p (expandWord T w (c # cs) @ c # ?X)
           = expandWord [(tok, rep)] (expandWord T w (c # cs)) (c # ?X) @ c # expandWith [(tok, rep)] (Some c) ?X"
      using expandWith_word_run[of "[(tok, rep)]" p "expandWord T w (c # cs)" "c # ?X"] wf1 less.prems 4
        expandWord_wordString[OF assms(1) 4(2)] by (simp add: expandWith_nonword)
    have c: "expandWith (T @ [(tok, rep)]) p (w @ c # cs)
           = expandWord (T @ [(tok, rep)]) w (c # cs) @ c # expandWith (T @ [(tok, rep)]) (Some c) cs"
      using expandWith_word_run[of "T @ [(tok, rep)]" p w "c # cs"] wf2 less.prems 4
      by (simp add: expandWith_nonword)
    have d: "expandWord [(tok, rep)] (expandWord T w (c # cs)) (c # ?X) = expandWord (T @ [(tok, rep)]) w (c # cs)"
      by (rule expandWord_compose[OF assms(1,4)]) simp
    show ?thesis
      unfolding 4(1) a b c d ih ..
  qed
qed

lemma wordString_js:
  "wordString (js ''St'')" "wordString (js ''Street'')"
  "wordString (js ''Ave'')" "wordString (js ''Avenue'')"
  "wordString (js ''Blvd'')" "wordString (js ''Boulevard'')"
  "wordString (js ''Dr'')" "wordString (js ''Drive'')"
  "wordString (js ''Rd'')" "wordString (js ''Road'')"
  "wordString (js ''Ln'')" "wordString (js ''Lane'')"
  "wordString (js ''Ct'')" "wordString (js ''Court'')"
  "wordString (js ''Pl'')" "wordString (js ''Place'')"
  by (simp_all add: wordString_iff js_def isWordChar_def)

lemma wfTable_Cons: "wfTable (e # T) = (wordString (fst e) \<and> wordString (snd e) \<and> wfTable T)"
  by (auto simp: wfTable_iff)

lemma wfTable_Nil: "wfTable []"
  by (simp add: wfTable_iff)

lemma expandAbbreviations_table: "expandAbbreviations s = expandSpec s"
proof -
  note ws = wordString_js
  note wf = wfTable_Cons wfTable_Nil
  let ?t1 = "[(js ''St'', js ''Street'')]"
  let ?t2 = "?t1 @ [(js ''Ave'', js ''Avenue'')]"
  let ?t3 = "?t2 @ [(js ''Blvd'', js ''Boulevard'')]"
  let ?t4 = "?t3 @ [(js ''Dr'', js ''Drive'')]"
  let ?t5 = "?t4 @ [(js ''Rd'', js ''Road'')]"
  let ?t6 = "?t5 @ [(js ''Ln'', js ''Lane'')]"
  let ?t7 = "?t6 @ [(js ''Ct'', js ''Court'')]"
  let ?t8 = "?t7 @ [(js ''Pl'', js ''Place'')]"
  have s2: "expandWith [(js ''Ave'', js ''Avenue'')] None (expandWith ?t1 None s) = expandWith ?t2 None s"
    by (rule expandWith_compose) (simp_all add: ws wf, simp_all add: js_def)
  have s3: "expandWith [(js ''Blvd'', js ''Boulevard'')] None (expandWith ?t2 None s) = expandWith ?t3 None s"
    by (rule expandWith_compose) (simp_all add: ws wf, simp_all add: js_def)
  have s4: "expandWith [(js ''Dr'', js ''Drive'')] None (expandWith ?t3 None s) = expandWith ?t4 None s"
    by (rule expandWith_compose) (simp_all add: ws wf, simp_all add: js_def)
  have s5: "expandWith [(js ''Rd'', js ''Road'')] None (expandWith ?t4 None s) = expandWith ?t5 None s"
    by (rule expandWith_compose) (simp_all add: ws wf, simp_all add: js_def)
  have s6: "expandWith [(js ''Ln'', js ''Lane'')] None (expandWith ?t5 None s) = expandWith ?t6 None s"
    by (rule expandWith_compose) (simp_all add: ws wf, simp_all add: js_def)
  have s7: "expandWith [(js ''Ct'', js ''Court'')] None (expandWith ?t6 None s) = expandWith ?t7 None s"
    by (rule expandWith_compose) (simp_all add: ws wf, simp_all add: js_def)
  have s8: "expandWith [(js ''Pl'', js ''Place'')] None (expandWith ?t7 None s) = expandWith ?t8 None s"
    by (rule expandWith_compose) (simp_all add: ws wf, simp_all add: js_def)
  have t: "?t8 = abbreviationTable"
    by (simp add: abbreviationTable_def)
  show ?thesis
    unfolding expandAbbreviations_def expandSpec_def
    by (simp only: replaceAbbrev_expandWith ws s2 s3 s4 s5 s6 s7 s8 t)
qed


lemmas regex_eval =
  expandAbbreviations_def js_def matchesAt_def atWordBoundary_def isWordChar_def
  isWhiteSpace_def comma_def

lemma expand_Stuart: "expandAbbreviations (js ''Stuart'') = js ''Stuart''"
  by (simp add: regex_eval)

lemma expand_Main_St: "expandAbbreviations (js ''123 Main St'') = js ''123 Main Street''"
  by (simp add: regex_eval)

lemma expand_St_Louis: "expandAbbreviations (js ''St. Louis'') = js ''St. Louis''"
  by (simp add: regex_eval)

lemma expand_comma_case:
  "expandAbbreviations (js ''5 Oak Ave, 7 main st'') = js ''5 Oak Avenue, 7 main st''"
  by (simp add: regex_eval)

text \<open>
  C8: the eight global replacements of \<^verbatim>\<open>expandAbbreviations\<close> together do what the
  specification's table says, for every input: one pass that expands a token of the table
  (St, Ave, Blvd, Dr, Rd, Ln, Ct, Pl, compared code unit by code unit, hence
  case-sensitively) where it starts at a word boundary and is followed by whitespace, a
  comma or the end of the string, and copies every other code unit. In particular
  "Stuart" and "St. Louis" are unchanged and "123 Main St" becomes "123 Main Street".
\<close>

theorem expandAbbreviations_spec:
  "expandAbbreviations s = expandSpec s \<and>
   expandAbbreviations (js ''Stuart'') = js ''Stuart'' \<and>
   expandAbbreviations (js ''123 Main St'') = js ''123 Main Street'' \<and>
   expandAbbreviations (js ''St. Louis'') = js ''St. Louis'' \<and>
   expandAbbreviations (js ''5 Oak Ave, 7 main st'') = js ''5 Oak Avenue, 7 main st''"
  using expandAbbreviations_table[of s] expand_Stuart expand_Main_St expand_St_Louis
    expand_comma_case
  by (simp only: simp_thms)

section \<open>Properties of the session controller\<close>

lemma handleUserSpeech_busy:
  "isProcessingResponse s \<Longrightarrow>
     handleUserSpeech env transcript s = s\<lparr>effects := effects s @ [Console StillProcessingLine]\<rparr>"
  by (simp add: handleUserSpeech_def emit_def)

lemma handleUserSpeech_busy_all:
  "isProcessingResponse s \<Longrightarrow>
     foldl (\<lambda>s' transcript. handleUserSpeech env transcript s') s transcripts =
       s\<lparr>effects := effects s @ replicate (length transcripts) (Console StillProcessingLine)\<rparr>"
proof (induction transcripts arbitrary: s)
  case Nil
  then show ?case by simp
next
  case (Cons transcript transcripts)
  let ?s1 = "s\<lparr>effects := effects s @ [Console StillProcessingLine]\<rparr>"
  have busy: "isProcessingResponse ?s1"
    using Cons.prems by simp
  have "foldl (\<lambda>s' transcript. handleUserSpeech env transcript s') s (transcript # transcripts) =
      foldl (\<lambda>s' transcript. handleUserSpeech env transcript s') ?s1 transcripts"
    by (simp add: handleUserSpeech_busy [OF Cons.prems])
  also have "\<dots> = ?s1\<lparr>effects := effects ?s1 @ replicate (length transcripts) (Console StillProcessingLine)\<rparr>"
    by (rule Cons.IH [OF busy])
  finally show ?case
    by simp
qed

text \<open>
  C1: an utterance handed to \<^verbatim>\<open>handleUserSpeech\<close> while \<^verbatim>\<open>isProcessingResponse\<close> is true
  only writes the console line of the guard: the history, the three flags and the number
  of service requests are unchanged, so nothing is generated, no tool runs and nothing is
  spoken, and the utterance is kept nowhere. The same holds for any sequence of
  utterances delivered to a session whose cycle is still in flight.
\<close>

theorem busy_utterance_dropped:
  "isProcessingResponse s \<Longrightarrow>
     handleUserSpeech env transcript s = s\<lparr>effects := effects s @ [Console StillProcessingLine]\<rparr> \<and>
     foldl (\<lambda>s' transcript. handleUserSpeech env transcript s') s transcripts =
       s\<lparr>effects := effects s @ replicate (length transcripts) (Console StillProcessingLine)\<rparr>"
  by (simp only: handleUserSpeech_busy handleUserSpeech_busy_all simp_thms)

theorem busy_utterance_dropped_witness:
  "isProcessingResponse busySession \<and>
   handleUserSpeech chattyEnv (js ''hello Claw'') busySession =
     busySession\<lparr>effects := [Console StillProcessingLine]\<rparr> \<and>
   foldl (\<lambda>s' transcript. handleUserSpeech chattyEnv transcript s') busySession
     [js ''hello Claw'', js ''are you there?''] =
     busySession\<lparr>effects := [Console StillProcessingLine, Console StillProcessingLine]\<rparr>"
proof -
  have busy: "isProcessingResponse busySession"
    by (simp add: busySession_def initialSession_def)
  have none: "effects busySession = []"
    by (simp add: busySession_def initialSession_def)
  have twice: "replicate (length [js ''hello Claw'', js ''are you there?'']) (Console StillProcessingLine) =
      [Console StillProcessingLine, Console StillProcessingLine]"
    by simp
  show ?thesis
    using busy
      busy_utterance_dropped [OF busy, of chattyEnv "js ''hello Claw''"
        "[js ''hello Claw'', js ''are you there?'']", unfolded none twice append_Nil]
    by blast
qed

text \<open>
  C7: while \<^verbatim>\<open>isPaused\<close> is true a completed transcription changes nothing at all: not
  the history, no generation cycle, no tool, no speech, not even a console line.
\<close>

theorem paused_transcription_ignored:
  "isPaused s \<Longrightarrow> onMessage env (TranscriptionCompleted transcript) s = s"
  by (cases transcript) simp_all

theorem paused_transcription_ignored_witness:
  "isPaused pausedSession \<and>
   onMessage chattyEnv (TranscriptionCompleted (Some (js ''hello Claw''))) pausedSession = pausedSession"
proof -
  have paused: "isPaused pausedSession"
    by (simp add: pausedSession_def initialSession_def)
  show ?thesis
    using paused
      paused_transcription_ignored [OF paused, of chattyEnv "Some (js ''hello Claw'')"]
    by simp
qed

lemma trim_whitespace:
  assumes "list_all isWhiteSpace spoken"
  shows "trim spoken = []"
proof -
  have d: "dropWhile isWhiteSpace spoken = []"
    using assms by (simp add: list_all_iff)
  show ?thesis
    unfolding trim_def d by simp
qed

text \<open>
  C10: a completed transcription whose transcript is absent, empty or made of whitespace
  only changes nothing either, also when the session is not paused.
\<close>

theorem blank_transcription_ignored:
  "blank transcript \<Longrightarrow> onMessage env (TranscriptionCompleted transcript) s = s"
  by (cases transcript) (simp_all add: trim_whitespace)

theorem blank_transcription_ignored_witness:
  "blank (Some (js ''  '')) \<and> \<not> isPaused initialSession \<and>
   onMessage chattyEnv (TranscriptionCompleted (Some (js ''  ''))) initialSession = initialSession"
proof -
  have b: "blank (Some (js ''  ''))"
    by (simp add: js_def isWhiteSpace_def)
  have "\<not> isPaused initialSession"
    by (simp add: initialSession_def)
  then show ?thesis
    using b blank_transcription_ignored [OF b, of chattyEnv initialSession] by simp
qed

section \<open>Properties of the tool executor\<close>

lemma tool_names:
  "js ''mute_self'' \<noteq> js ''leave_meeting''"
  "js ''unmute_self'' \<noteq> js ''leave_meeting''"
  "js ''unmute_self'' \<noteq> js ''mute_self''"
  "js ''pause_listening'' \<noteq> js ''leave_meeting''"
  "js ''pause_listening'' \<noteq> js ''mute_self''"
  "js ''pause_listening'' \<noteq> js ''unmute_self''"
  "js ''resume_listening'' \<noteq> js ''leave_meeting''"
  "js ''resume_listening'' \<noteq> js ''mute_self''"
  "js ''resume_listening'' \<noteq> js ''unmute_self''"
  "js ''resume_listening'' \<noteq> js ''pause_listening''"
  "js ''web_search'' \<noteq> js ''leave_meeting''"
  "js ''web_search'' \<noteq> js ''mute_self''"
  "js ''web_search'' \<noteq> js ''unmute_self''"
  "js ''web_search'' \<noteq> js ''pause_listening''"
  "js ''web_search'' \<noteq> js ''resume_listening''"
  by (simp_all add: js_def)

lemmas tool_eval =
  handleToolCall_def speakUnlessMuted_def speakElevenLabs_def andThen_def catchError_def
  emit_def requested_def Let_def tool_names

text \<open>
  C6: \<^verbatim>\<open>mute_self\<close> on a muted session and \<^verbatim>\<open>unmute_self\<close> on an unmuted one only write
  console lines: no flag changes, no signal, no speech request. \<^verbatim>\<open>pause_listening\<close> on a
  paused session and \<^verbatim>\<open>resume_listening\<close> on a listening one run as they always do: the flag
  is (again) set, the signal is emitted, and unless the session is muted the acknowledgement
  is sent to the speech service (and played when that service answers with audio).
\<close>

theorem duplicate_tool_calls:
  "(isMuted m \<longrightarrow>
      handleToolCall env (ToolCall (js ''mute_self'') args) m =
        (Returned (), m\<lparr>effects := effects m @
           [Console (ToolCallLine (js ''mute_self'')), Console AlreadyMutedLine]\<rparr>)) \<and>
   (\<not> isMuted u \<longrightarrow>
      handleToolCall env (ToolCall (js ''unmute_self'') args) u =
        (Returned (), u\<lparr>effects := effects u @
           [Console (ToolCallLine (js ''unmute_self'')), Console AlreadyUnmutedLine]\<rparr>)) \<and>
   (isPaused p \<longrightarrow>
      isPaused (snd (handleToolCall env (ToolCall (js ''pause_listening'') args) p)) \<and>
      effects (snd (handleToolCall env (ToolCall (js ''pause_listening'') args) p)) =
        effects p @
        [Console (ToolCallLine (js ''pause_listening'')), Console PausedLine, Signal PAUSED] @
        (if isMuted p then []
         else SpeechRequest
                (expandAbbreviations (js ''I'll stop listening now. Say my name when you want me back.'')) #
              (case elevenlabs env (requests p)
                      (expandAbbreviations (js ''I'll stop listening now. Say my name when you want me back.'')) of
                 TtsPlayed \<Rightarrow>
                   [Playback (expandAbbreviations (js ''I'll stop listening now. Say my name when you want me back.''))]
               | TtsFailed e \<Rightarrow> []))) \<and>
   (\<not> isPaused r \<longrightarrow>
      \<not> isPaused (snd (handleToolCall env (ToolCall (js ''resume_listening'') args) r)) \<and>
      effects (snd (handleToolCall env (ToolCall (js ''resume_listening'') args) r)) =
        effects r @
        [Console (ToolCallLine (js ''resume_listening'')), Console ResumedLine, Signal RESUMED] @
        (if isMuted r then []
         else SpeechRequest (expandAbbreviations (js ''I'm listening again. How can I help?'')) #
              (case elevenlabs env (requests r)
                      (expandAbbreviations (js ''I'm listening again. How can I help?'')) of
                 TtsPlayed \<Rightarrow> [Playback (expandAbbreviations (js ''I'm listening again. How can I help?''))]
               | TtsFailed e \<Rightarrow> [])))"
  by (simp add: tool_eval split: ttsReply.splits)

theorem duplicate_tool_calls_witness:
  "isMuted mutedSession \<and>
   handleToolCall quietEnv (ToolCall (js ''mute_self'') ArgsAbsent) mutedSession =
     (Returned (), mutedSession\<lparr>effects :=
        [Console (ToolCallLine (js ''mute_self'')), Console AlreadyMutedLine]\<rparr>) \<and>
   \<not> isMuted initialSession \<and>
   handleToolCall quietEnv (ToolCall (js ''unmute_self'') ArgsAbsent) initialSession =
     (Returned (), initialSession\<lparr>effects :=
        [Console (ToolCallLine (js ''unmute_self'')), Console AlreadyUnmutedLine]\<rparr>) \<and>
   isPaused pausedSession \<and>
   effects (snd (handleToolCall quietEnv (ToolCall (js ''pause_listening'') ArgsAbsent) pausedSession)) =
     [Console (ToolCallLine (js ''pause_listening'')), Console PausedLine, Signal PAUSED,
      SpeechRequest (expandAbbreviations (js ''I'll stop listening now. Say my name when you want me back.'')),
      Playback (expandAbbreviations (js ''I'll stop listening now. Say my name when you want me back.''))] \<and>
   \<not> isPaused initialSession \<and>
   effects (snd (handleToolCall quietEnv (ToolCall (js ''resume_listening'') ArgsAbsent) initialSession)) =
     [Console (ToolCallLine (js ''resume_listening'')), Console ResumedLine, Signal RESUMED,
      SpeechRequest (expandAbbreviations (js ''I'm listening again. How can I help?'')),
      Playback (expandAbbreviations (js ''I'm listening again. How can I help?''))]"
proof -
  have h: "isMuted mutedSession" "\<not> isMuted initialSession" "isPaused pausedSession"
    "\<not> isPaused initialSession" "\<not> isMuted pausedSession"
    by (simp_all add: mutedSession_def pausedSession_def initialSession_def)
  have e: "effects mutedSession = []" "effects initialSession = []" "effects pausedSession = []"
    by (simp_all add: mutedSession_def pausedSession_def initialSession_def)
  have q: "elevenlabs quietEnv n spoken = TtsPlayed" for n spoken
    by (simp add: quietEnv_def)
  show ?thesis
    using h duplicate_tool_calls
      [of mutedSession quietEnv ArgsAbsent initialSession pausedSession initialSession]
    by (simp add: e q)
qed

section \<open>What every handler preserves\<close>

lemma extends_refl: "extends s s"
  by (simp add: extends_def)

lemma extends_emit: "extends s s' \<Longrightarrow> extends s (emit e s')"
  by (auto simp: extends_def emit_def intro: prefix_order.trans)

lemma extends_requested: "extends s s' \<Longrightarrow> extends s (requested e s')"
  by (auto simp: extends_def requested_def intro: prefix_order.trans)

lemma extends_pushTurn: "extends s s' \<Longrightarrow> extends s (pushTurn t s')"
  by (auto simp: extends_def pushTurn_def intro: prefix_order.trans)

lemma extends_isPaused: "extends s s' \<Longrightarrow> extends s (s'\<lparr>isPaused := b\<rparr>)"
  by (simp add: extends_def)

lemma extends_isMuted: "extends s s' \<Longrightarrow> extends s (s'\<lparr>isMuted := b\<rparr>)"
  by (simp add: extends_def)

lemma extends_andThen:
  assumes "extends s (snd r)" and "\<And>x s1. extends s s1 \<Longrightarrow> extends s (snd (k x s1))"
  shows "extends s (snd (andThen r k))"
  using assms by (cases r) (auto simp: andThen_def split: outcome.splits)

lemma extends_catchError:
  assumes "extends s (snd r)" and "\<And>e s1. extends s s1 \<Longrightarrow> extends s (snd (handler e s1))"
  shows "extends s (snd (catchError r handler))"
  using assms by (cases r) (auto simp: catchError_def split: outcome.splits)

lemma extends_speakElevenLabs: "extends s s' \<Longrightarrow> extends s (snd (speakElevenLabs env spoken s'))"
  by (auto simp: speakElevenLabs_def Let_def intro!: extends_emit extends_requested
      split: ttsReply.splits)

lemma extends_speakUnlessMuted: "extends s s' \<Longrightarrow> extends s (snd (speakUnlessMuted env spoken s'))"
  by (simp add: speakUnlessMuted_def extends_speakElevenLabs)

lemma extends_generateResponse: "extends s s' \<Longrightarrow> extends s (snd (generateResponse env s'))"
  by (auto simp: generateResponse_def Let_def intro!: extends_requested split: chatReply.splits)

lemma extends_searchExa: "extends s s' \<Longrightarrow> extends s (snd (searchExa env q n s'))"
  by (auto simp: searchExa_def Let_def intro!: extends_requested split: exaReply.splits)

lemma extends_speakResponse: "extends s s' \<Longrightarrow> extends s (snd (speakResponse env c s'))"
  by (auto simp: speakResponse_def intro!: extends_speakElevenLabs extends_pushTurn extends_emit
      split: option.splits)

lemma extends_webSearch: "extends s s' \<Longrightarrow> extends s (snd (webSearch env q n s'))"
  unfolding webSearch_def Let_def
  by (auto intro!: extends_andThen extends_searchExa extends_emit extends_speakUnlessMuted
      extends_generateResponse extends_pushTurn extends_speakResponse split: option.splits)

lemma extends_webSearchTry: "extends s s' \<Longrightarrow> extends s (snd (webSearchTry env args s'))"
  by (cases args) (simp_all add: webSearchTry_def extends_webSearch)

lemma extends_handleToolCall: "extends s s' \<Longrightarrow> extends s (snd (handleToolCall env toolCall s'))"
  unfolding handleToolCall_def Let_def
  by (auto intro!: extends_andThen extends_catchError extends_emit extends_speakUnlessMuted
      extends_webSearchTry extends_isPaused extends_isMuted)

lemma extends_runToolCalls: "extends s s' \<Longrightarrow> extends s (snd (runToolCalls env calls s'))"
proof (induction calls arbitrary: s')
  case Nil
  then show ?case by simp
next
  case (Cons toolCall rest)
  show ?case
    unfolding runToolCalls.simps
    by (rule extends_andThen) (simp_all add: Cons extends_handleToolCall)
qed

lemma extends_checkToolCalls: "extends s s' \<Longrightarrow> extends s (snd (checkToolCalls env tool_calls s'))"
  by (auto simp: checkToolCalls_def extends_runToolCalls split: option.splits)

text \<open>
  C5, as the code has it: when \<^verbatim>\<open>leave_meeting\<close> runs on a muted session, or on an unmuted
  one whose acknowledgement the speech service plays, the acknowledgement (if any) is
  requested and played first, then \<^verbatim>\<open>SIGNAL:LEAVE_MEETING\<close> is written, \<^verbatim>\<open>isPaused\<close> is set
  and the 60000 ms exit timer is armed, in this order.
\<close>

theorem leave_meeting_order:
  "isMuted s \<or> elevenlabs env (requests s) (expandAbbreviations (js ''Okay, signing off!'')) = TtsPlayed \<Longrightarrow>
     handleToolCall env (ToolCall (js ''leave_meeting'') args) s =
       (Returned (),
        s\<lparr>isPaused := True,
          effects := effects s @
            [Console (ToolCallLine (js ''leave_meeting'')), Console LeavingLine] @
            (if isMuted s then []
             else [SpeechRequest (expandAbbreviations (js ''Okay, signing off!'')),
                   Playback (expandAbbreviations (js ''Okay, signing off!''))]) @
            [Signal LEAVE_MEETING, ExitTimer 60000],
          requests := requests s + (if isMuted s then 0 else 1)\<rparr>)"
  by (auto simp add: tool_eval)

theorem leave_meeting_order_witness:
  "\<not> isMuted initialSession \<and>
   elevenlabs quietEnv (requests initialSession) (expandAbbreviations (js ''Okay, signing off!'')) = TtsPlayed \<and>
   handleToolCall quietEnv (ToolCall (js ''leave_meeting'') ArgsAbsent) initialSession =
     (Returned (),
      initialSession\<lparr>isPaused := True,
        effects :=
          [Console (ToolCallLine (js ''leave_meeting'')), Console LeavingLine,
           SpeechRequest (expandAbbreviations (js ''Okay, signing off!'')),
           Playback (expandAbbreviations (js ''Okay, signing off!'')),
           Signal LEAVE_MEETING, ExitTimer 60000],
        requests := 1\<rparr>)"
proof -
  have played:
    "elevenlabs quietEnv (requests initialSession) (expandAbbreviations (js ''Okay, signing off!'')) = TtsPlayed"
    by (simp add: quietEnv_def)
  have unmuted: "\<not> isMuted initialSession"
    by (simp add: initialSession_def)
  have premise:
    "isMuted initialSession \<or>
     elevenlabs quietEnv (requests initialSession) (expandAbbreviations (js ''Okay, signing off!'')) = TtsPlayed"
    using played by simp
  show ?thesis
    using played unmuted leave_meeting_order [OF premise, of ArgsAbsent]
    by (simp add: initialSession_def)
qed

text \<open>
  The claim C5 as written fails when the speech service rejects the acknowledgement: the
  rejected \<^verbatim>\<open>await\<close> leaves \<^verbatim>\<open>handleToolCall\<close> before the signal, so the session is not
  paused, no signal is written and no timer is armed.
\<close>

theorem leave_meeting_counterexample:
  "\<not> isMuted initialSession \<and>
   fst (handleToolCall speechlessEnv (ToolCall (js ''leave_meeting'') ArgsAbsent) initialSession) =
     Threw (js ''ElevenLabs error 500: '') \<and>
   \<not> isPaused (snd (handleToolCall speechlessEnv (ToolCall (js ''leave_meeting'') ArgsAbsent) initialSession)) \<and>
   effects (snd (handleToolCall speechlessEnv (ToolCall (js ''leave_meeting'') ArgsAbsent) initialSession)) =
     [Console (ToolCallLine (js ''leave_meeting'')), Console LeavingLine,
      SpeechRequest (expandAbbreviations (js ''Okay, signing off!''))]"
  by (simp add: tool_eval speechlessEnv_def chattyEnv_def quietEnv_def initialSession_def)

lemma length_jsSlice_upto: "0 \<le> n \<Longrightarrow> length (jsSlice xs 0 (Some n)) \<le> nat n"
  by (simp add: jsSlice_def Let_def)

lemma web_search_request:
  assumes "searchQuery \<noteq> []" "truthy (EXA_API_KEY env)"
  shows "\<exists>more.
     effects (snd (handleToolCall env (ToolCall (js ''web_search'') (Args (Some searchQuery) argsCount)) s)) =
       effects s @
       [Console (ToolCallLine (js ''web_search'')), Console (SearchingLine searchQuery),
        SearchRequest searchQuery (case argsCount of None \<Rightarrow> 3 | Some n \<Rightarrow> if n = 0 then 3 else n)] @ more"
proof -
  define n where "n = (case argsCount of None \<Rightarrow> 3 | Some n \<Rightarrow> if n = 0 then (3::int) else n)"
  define s0 where "s0 = emit (Console (ToolCallLine (js ''web_search''))) s"
  define r where "r = searchExa env searchQuery n (emit (Console (SearchingLine searchQuery)) s0)"
  have e: "effects (snd r) =
      effects s @ [Console (ToolCallLine (js ''web_search'')), Console (SearchingLine searchQuery),
        SearchRequest searchQuery n]"
    by (simp add: r_def s0_def searchExa_def Let_def requested_def emit_def split: exaReply.splits)
  have "extends (snd r) (snd (webSearchTry env (Args (Some searchQuery) argsCount) s0))"
    using assms unfolding webSearchTry_def webSearch_def Let_def r_def n_def
    by (auto intro!: extends_andThen extends_refl extends_speakUnlessMuted extends_generateResponse
        extends_pushTurn extends_emit extends_speakResponse)
  then have "extends (snd r)
      (snd (catchError (webSearchTry env (Args (Some searchQuery) argsCount) s0)
         (\<lambda>e s1. speakUnlessMuted env (js ''Sorry, the search failed.'')
                    (emit (Console (SearchErrorLine e)) s1))))"
    by (intro extends_catchError extends_speakUnlessMuted extends_emit)
  moreover have "handleToolCall env (ToolCall (js ''web_search'') (Args (Some searchQuery) argsCount)) s =
      catchError (webSearchTry env (Args (Some searchQuery) argsCount) s0)
         (\<lambda>e s1. speakUnlessMuted env (js ''Sorry, the search failed.'')
                    (emit (Console (SearchErrorLine e)) s1))"
    by (simp add: handleToolCall_def Let_def tool_names s0_def)
  ultimately have "prefix (effects (snd r))
      (effects (snd (handleToolCall env (ToolCall (js ''web_search'') (Args (Some searchQuery) argsCount)) s)))"
    by (simp add: extends_def)
  then show ?thesis
    unfolding e n_def by (auto simp: prefix_def)
qed

text \<open>
  C9, as the code has it: \<^verbatim>\<open>searchExa\<close> sends the count it is given to the service
  unchanged and keeps \<^verbatim>\<open>slice(0, count)\<close> of the results; the \<^verbatim>\<open>web_search\<close> case passes
  the count of the tool call, or 3 when there is none or it is 0. Nothing clamps the
  count: the result list has at most \<open>count\<close> entries for a count that is not negative,
  hence at most 5 only when the requested count is at most 5.
\<close>

theorem search_count_passed_through:
  "effects (snd (searchExa env searchQuery searchCount s)) = effects s @ [SearchRequest searchQuery searchCount] \<and>
   (fst (searchExa env searchQuery searchCount s) = Returned results \<and> 0 \<le> searchCount \<longrightarrow>
      length results \<le> nat searchCount) \<and>
   (fst (searchExa env searchQuery searchCount s) = Returned results \<and> 1 \<le> searchCount \<and> searchCount \<le> 5 \<longrightarrow>
      length results \<le> 5) \<and>
   (searchQuery \<noteq> [] \<and> truthy (EXA_API_KEY env) \<longrightarrow>
      (\<exists>more.
         effects (snd (handleToolCall env (ToolCall (js ''web_search'') (Args (Some searchQuery) argsCount)) s)) =
           effects s @
           [Console (ToolCallLine (js ''web_search'')), Console (SearchingLine searchQuery),
            SearchRequest searchQuery (case argsCount of None \<Rightarrow> 3 | Some n \<Rightarrow> if n = 0 then 3 else n)] @
           more))"
proof -
  have bound: "length results \<le> nat searchCount"
    if "fst (searchExa env searchQuery searchCount s) = Returned results" "0 \<le> searchCount"
    using that length_jsSlice_upto [of searchCount]
    by (auto simp: searchExa_def Let_def split: exaReply.splits)
  have "effects (snd (searchExa env searchQuery searchCount s)) = effects s @ [SearchRequest searchQuery searchCount]"
    by (simp add: searchExa_def Let_def requested_def split: exaReply.splits)
  moreover have "length results \<le> 5"
    if "fst (searchExa env searchQuery searchCount s) = Returned results" "1 \<le> searchCount" "searchCount \<le> 5"
    using bound [OF that(1)] that(2,3) by simp
  ultimately show ?thesis
    using bound web_search_request [of searchQuery env argsCount s] by blast
qed

theorem search_count_passed_through_witness:
  "fst (searchExa generousEnv (js ''cafes'') 2 initialSession) =
     Returned [normalizeResult sampleResult, normalizeResult sampleResult] \<and>
   effects (snd (searchExa generousEnv (js ''cafes'') 2 initialSession)) = [SearchRequest (js ''cafes'') 2] \<and>
   length [normalizeResult sampleResult, normalizeResult sampleResult] \<le> nat 2 \<and>
   length [normalizeResult sampleResult, normalizeResult sampleResult] \<le> 5 \<and>
   js ''cafes'' \<noteq> [] \<and> truthy (EXA_API_KEY generousEnv) \<and>
   (\<exists>more.
      effects (snd (handleToolCall generousEnv
         (ToolCall (js ''web_search'') (Args (Some (js ''cafes'')) (Some 2))) initialSession)) =
        [Console (ToolCallLine (js ''web_search'')), Console (SearchingLine (js ''cafes'')),
         SearchRequest (js ''cafes'') 2] @ more)"
proof -
  have r: "fst (searchExa generousEnv (js ''cafes'') 2 initialSession) =
      Returned [normalizeResult sampleResult, normalizeResult sampleResult]"
    by (simp add: searchExa_def generousEnv_def chattyEnv_def quietEnv_def jsSlice_def Let_def
        numeral_2_eq_2)
  have k: "js ''cafes'' \<noteq> []" "truthy (EXA_API_KEY generousEnv)"
    by (simp_all add: js_def generousEnv_def chattyEnv_def quietEnv_def)
  show ?thesis
    using r k search_count_passed_through
      [of generousEnv "js ''cafes''" 2 initialSession
          "[normalizeResult sampleResult, normalizeResult sampleResult]" "Some 2"]
    by (simp add: initialSession_def)
qed

text \<open>
  The claim C9 as written fails for a requested count of 7: the request carries 7 and the
  seven results of the service all reach the tool executor.
\<close>

theorem search_count_counterexample:
  "fst (searchExa generousEnv (js ''cafes'') 7 initialSession) =
     Returned (replicate 7 (normalizeResult sampleResult)) \<and>
   effects (snd (searchExa generousEnv (js ''cafes'') 7 initialSession)) = [SearchRequest (js ''cafes'') 7] \<and>
   \<not> length (replicate 7 (normalizeResult sampleResult)) \<le> 5"
  by (simp add: searchExa_def generousEnv_def chattyEnv_def quietEnv_def jsSlice_def Let_def
      requested_def initialSession_def)

section \<open>History and the processing flag\<close>

lemma jsSlice_last20: "20 < length h \<Longrightarrow> jsSlice h (- 20) None = drop (length h - 20) h"
  by (simp add: jsSlice_def Let_def nat_diff_distrib)

lemma appendUserTurn_history:
  "conversationHistory (appendUserTurn transcript s) =
     drop (length (conversationHistory s) + 1 - 20)
       (conversationHistory s @ [\<lparr>role = User, content = transcript\<rparr>])"
  by (auto simp: appendUserTurn_def Let_def jsSlice_last20)

lemma appendUserTurn_other [simp]:
  "isProcessingResponse (appendUserTurn transcript s) = isProcessingResponse s"
  "isMuted (appendUserTurn transcript s) = isMuted s"
  "isPaused (appendUserTurn transcript s) = isPaused s"
  "effects (appendUserTurn transcript s) = effects s"
  "requests (appendUserTurn transcript s) = requests s"
  by (simp_all add: appendUserTurn_def Let_def)

lemma appendUserTurn_flag:
  "appendUserTurn transcript (s\<lparr>isProcessingResponse := b\<rparr>) =
     (appendUserTurn transcript s)\<lparr>isProcessingResponse := b\<rparr>"
  by (simp add: appendUserTurn_def Let_def)

lemma appendUserTurn_length:
  "length (conversationHistory (appendUserTurn transcript s)) = min 20 (length (conversationHistory s) + 1)"
  by (simp add: appendUserTurn_history)

lemma appendUserTurn_last:
  "last (conversationHistory (appendUserTurn transcript s)) = \<lparr>role = User, content = transcript\<rparr>"
  by (simp add: appendUserTurn_history)

lemma handleUserSpeech_extends:
  assumes "\<not> isProcessingResponse s"
  shows "\<exists>more.
      effects (handleUserSpeech env transcript s) =
        effects s @
        ChatRequest (\<lparr>role = System, content = SYSTEM_PROMPT env\<rparr> #
                     conversationHistory (appendUserTurn transcript s)) # more"
    and "prefix (conversationHistory (appendUserTurn transcript s))
          (conversationHistory (handleUserSpeech env transcript s))"
proof -
  define s1 where "s1 = appendUserTurn transcript (s\<lparr>isProcessingResponse := True\<rparr>)"
  define g where "g = generateResponse env s1"
  define final where "final = snd (catchError (handleUserSpeechTry env transcript (s\<lparr>isProcessingResponse := True\<rparr>))
      (\<lambda>e s'. (Returned (), emit (Console (ResponseErrorLine e)) s')))"
  have h1: "conversationHistory s1 = conversationHistory (appendUserTurn transcript s)"
    by (simp add: s1_def appendUserTurn_flag)
  have g_eff: "effects (snd g) =
      effects s @ [ChatRequest (\<lparr>role = System, content = SYSTEM_PROMPT env\<rparr> #
                     conversationHistory (appendUserTurn transcript s))]"
    and g_hist: "conversationHistory (snd g) = conversationHistory (appendUserTurn transcript s)"
    unfolding g_def generateResponse_def Let_def
    by (simp_all add: requested_def s1_def appendUserTurn_flag split: chatReply.splits)
  have "extends (snd g) (snd (handleUserSpeechTry env transcript (s\<lparr>isProcessingResponse := True\<rparr>)))"
    unfolding handleUserSpeechTry_def g_def s1_def
    by (intro extends_andThen extends_refl extends_checkToolCalls extends_speakResponse)
  then have ext: "extends (snd g) final"
    unfolding final_def by (intro extends_catchError) (simp_all add: extends_emit)
  have fin: "handleUserSpeech env transcript s = final\<lparr>isProcessingResponse := False\<rparr>"
    using assms by (simp add: handleUserSpeech_def final_def Let_def)
  have "prefix (effects (snd g)) (effects (handleUserSpeech env transcript s))"
    using ext by (simp add: fin extends_def)
  then show "\<exists>more.
      effects (handleUserSpeech env transcript s) =
        effects s @
        ChatRequest (\<lparr>role = System, content = SYSTEM_PROMPT env\<rparr> #
                     conversationHistory (appendUserTurn transcript s)) # more"
    unfolding g_eff by (auto simp: prefix_def)
  show "prefix (conversationHistory (appendUserTurn transcript s))
          (conversationHistory (handleUserSpeech env transcript s))"
    using ext by (simp add: fin extends_def g_hist)
qed

text \<open>
  C2, as the code has it: the history is cut where the user turn is pushed, and only
  there. Right after that push it holds the most recent 20 entries at most, in their
  order, and this is the history the response generator is asked about first; what the
  same cycle pushes afterwards (the assistant turn, the entries of \<^verbatim>\<open>web_search\<close>) is
  appended to it without another cut.
\<close>

theorem history_cut_at_user_turn:
  "\<not> isProcessingResponse s \<Longrightarrow>
     length (conversationHistory (appendUserTurn transcript s)) \<le> 20 \<and>
     length (conversationHistory (appendUserTurn transcript s)) =
       min 20 (length (conversationHistory s) + 1) \<and>
     suffix (conversationHistory (appendUserTurn transcript s))
       (conversationHistory s @ [\<lparr>role = User, content = transcript\<rparr>]) \<and>
     (\<exists>more.
        effects (handleUserSpeech env transcript s) =
          effects s @
          ChatRequest (\<lparr>role = System, content = SYSTEM_PROMPT env\<rparr> #
                       conversationHistory (appendUserTurn transcript s)) # more) \<and>
     prefix (conversationHistory (appendUserTurn transcript s))
       (conversationHistory (handleUserSpeech env transcript s))"
  using handleUserSpeech_extends [where s = s and env = env and transcript = transcript]
  by (simp add: appendUserTurn_length) (simp add: appendUserTurn_history suffix_drop)

lemma trim_question: "trim (js ''Claw, is it sunny?'') \<noteq> []" "js ''Claw, is it sunny?'' \<noteq> []"
  by (simp_all add: trim_def js_def isWhiteSpace_def)

lemma chatty_step:
  assumes "\<not> isProcessingResponse s" "\<not> isMuted s" "\<not> isPaused s"
  shows "onMessage chattyEnv (TranscriptionCompleted (Some (js ''Claw, is it sunny?''))) s =
     s\<lparr>conversationHistory :=
          conversationHistory (appendUserTurn (js ''Claw, is it sunny?'') s) @
          [\<lparr>role = Assistant, content = js ''Sunny today''\<rparr>],
       effects := effects s @
          [Console (UserLine (js ''Claw, is it sunny?'')),
           ChatRequest (\<lparr>role = System, content = SYSTEM_PROMPT chattyEnv\<rparr> #
                        conversationHistory (appendUserTurn (js ''Claw, is it sunny?'') s)),
           Console (ClawLine (js ''Sunny today'')),
           SpeechRequest (expandAbbreviations (js ''Sunny today'')),
           Playback (expandAbbreviations (js ''Sunny today''))],
       requests := requests s + 2\<rparr>"
proof -
  have c: "js ''Sunny today'' \<noteq> []"
    by (simp add: js_def)
  show ?thesis
    using assms c
    by (simp add: trim_question handleUserSpeech_def handleUserSpeechTry_def generateResponse_def
        checkToolCalls_def speakResponse_def speakElevenLabs_def pushTurn_def andThen_def
        catchError_def emit_def requested_def Let_def chattyEnv_def quietEnv_def
        appendUserTurn_def)
qed

lemma askRepeatedly_chatty:
  assumes "\<not> isProcessingResponse s" "\<not> isMuted s" "\<not> isPaused s"
  shows "\<not> isProcessingResponse (askRepeatedly chattyEnv n s) \<and>
         length (conversationHistory (askRepeatedly chattyEnv n s)) =
           ((\<lambda>k. min 20 (k + 1) + 1) ^^ n) (length (conversationHistory s))"
  using assms
proof (induction n arbitrary: s)
  case 0
  then show ?case by simp
next
  case (Suc n)
  let ?s = "onMessage chattyEnv (TranscriptionCompleted (Some (js ''Claw, is it sunny?''))) s"
  note eq = chatty_step [OF Suc.prems]
  have step: "\<not> isProcessingResponse ?s" "\<not> isMuted ?s" "\<not> isPaused ?s"
    and len: "length (conversationHistory ?s) = min 20 (length (conversationHistory s) + 1) + 1"
    unfolding eq using Suc.prems by (simp_all add: appendUserTurn_length)
  have unroll: "askRepeatedly chattyEnv (Suc n) s = askRepeatedly chattyEnv n ?s"
    by (simp only: askRepeatedly.simps)
  have pow: "((\<lambda>k. min 20 (k + 1) + 1) ^^ Suc n) (length (conversationHistory s)) =
      ((\<lambda>k. min 20 (k + 1) + 1) ^^ n) (length (conversationHistory ?s))"
    by (simp only: funpow_Suc_right o_apply len)
  show ?case
    unfolding unroll pow by (rule Suc.IH [OF step])
qed

lemma ten_exchanges:
  "\<not> isProcessingResponse (askRepeatedly chattyEnv 10 initialSession)"
  "length (conversationHistory (askRepeatedly chattyEnv 10 initialSession)) = 20"
proof -
  have flags: "\<not> isProcessingResponse initialSession" "\<not> isMuted initialSession"
    "\<not> isPaused initialSession"
    by (simp_all add: initialSession_def)
  have start: "length (conversationHistory initialSession) = 0"
    by (simp add: initialSession_def)
  have pow: "((\<lambda>k::nat. min 20 (k + 1) + 1) ^^ 10) 0 = 20"
    by (simp add: eval_nat_numeral)
  show "\<not> isProcessingResponse (askRepeatedly chattyEnv 10 initialSession)"
    using askRepeatedly_chatty [OF flags, of 10] by (rule conjunct1)
  show "length (conversationHistory (askRepeatedly chattyEnv 10 initialSession)) = 20"
    using askRepeatedly_chatty [OF flags, of 10] by (simp only: start pow)
qed

lemma eleven_exchanges:
  "length (conversationHistory (askRepeatedly chattyEnv 11 initialSession)) = 21"
proof -
  have flags: "\<not> isProcessingResponse initialSession" "\<not> isMuted initialSession"
    "\<not> isPaused initialSession"
    by (simp_all add: initialSession_def)
  have start: "length (conversationHistory initialSession) = 0"
    by (simp add: initialSession_def)
  have pow: "((\<lambda>k::nat. min 20 (k + 1) + 1) ^^ 11) 0 = 21"
    by (simp add: eval_nat_numeral)
  show ?thesis
    using askRepeatedly_chatty [OF flags, of 11] by (simp only: start pow)
qed

theorem history_cut_at_user_turn_witness:
  "\<not> isProcessingResponse (askRepeatedly chattyEnv 10 initialSession) \<and>
   length (conversationHistory (askRepeatedly chattyEnv 10 initialSession)) = 20 \<and>
   length (conversationHistory
      (appendUserTurn (js ''Claw, is it sunny?'') (askRepeatedly chattyEnv 10 initialSession))) = 20 \<and>
   suffix (conversationHistory
      (appendUserTurn (js ''Claw, is it sunny?'') (askRepeatedly chattyEnv 10 initialSession)))
     (conversationHistory (askRepeatedly chattyEnv 10 initialSession) @
      [\<lparr>role = User, content = js ''Claw, is it sunny?''\<rparr>]) \<and>
   prefix (conversationHistory
      (appendUserTurn (js ''Claw, is it sunny?'') (askRepeatedly chattyEnv 10 initialSession)))
     (conversationHistory
        (handleUserSpeech chattyEnv (js ''Claw, is it sunny?'') (askRepeatedly chattyEnv 10 initialSession)))"
  using ten_exchanges
    history_cut_at_user_turn [OF ten_exchanges(1), of "js ''Claw, is it sunny?''" chattyEnv]
  by simp

text \<open>
  The claim C2 as written fails at the assistant turn: after ten exchanges the history
  has 20 entries; the eleventh utterance is pushed and the history cut to 20, then the
  reply is pushed and the history has 21 entries when the cycle ends.
\<close>

theorem history_bound_counterexample:
  "length (conversationHistory (askRepeatedly chattyEnv 10 initialSession)) = 20 \<and>
   length (conversationHistory (askRepeatedly chattyEnv 11 initialSession)) = 21 \<and>
   \<not> length (conversationHistory (askRepeatedly chattyEnv 11 initialSession)) \<le> 20"
  by (simp only: ten_exchanges eleven_exchanges) simp

lemma trim_Nil: "trim [] = []"
  by (simp add: trim_def)

lemma speakElevenLabs_muted:
  "isMuted s \<Longrightarrow> speakElevenLabs env spoken s = (Returned (), emit (Console MutedSkippingLine) s)"
  by (simp add: speakElevenLabs_def)

lemma speakResponse_muted: "isMuted s \<Longrightarrow> speakResponse env message_content s = (Returned (), s)"
  by (simp add: speakResponse_def split: option.splits)

lemma generateResponse_history:
  "conversationHistory (snd (generateResponse env s)) = conversationHistory s"
  by (simp add: generateResponse_def Let_def requested_def split: chatReply.splits)

text \<open>
  C3, as the code has it: on a muted session that is not paused a transcribed utterance
  is pushed as a user turn and the tool calls of the reply are run; when the session is
  still muted after them, the cycle ends there: the spoken content of the reply is
  neither pushed to the history nor sent to the speech service. A call of
  \<^verbatim>\<open>speakElevenLabs\<close> on a muted session only writes a console line.
\<close>

theorem muted_utterance:
  assumes "isMuted s" and "\<not> isPaused s" and "\<not> isProcessingResponse s"
    and "trim transcript \<noteq> []"
    and "generateResponse env
           (appendUserTurn transcript
              ((emit (Console (UserLine transcript)) s)\<lparr>isProcessingResponse := True\<rparr>)) =
         (Returned (message_content, tool_calls), s1)"
    and "checkToolCalls env tool_calls s1 = (Returned (), s2)"
    and "isMuted s2"
  shows "onMessage env (TranscriptionCompleted (Some transcript)) s = s2\<lparr>isProcessingResponse := False\<rparr> \<and>
         last (conversationHistory s1) = \<lparr>role = User, content = transcript\<rparr> \<and>
         prefix (conversationHistory s1) (conversationHistory s2) \<and>
         speakElevenLabs env spoken s2 = (Returned (), emit (Console MutedSkippingLine) s2)"
proof -
  have ne: "transcript \<noteq> []"
    using assms(4) trim_Nil by auto
  have try_block:
    "handleUserSpeechTry env transcript
       ((emit (Console (UserLine transcript)) s)\<lparr>isProcessingResponse := True\<rparr>) = (Returned (), s2)"
    by (simp add: handleUserSpeechTry_def andThen_def assms(5,6) speakResponse_muted [OF assms(7)])
  have idle: "\<not> isProcessingResponse (emit (Console (UserLine transcript)) s)"
    using assms(3) by (simp add: emit_def)
  have "handleUserSpeech env transcript (emit (Console (UserLine transcript)) s) =
      s2\<lparr>isProcessingResponse := False\<rparr>"
    using idle by (simp add: handleUserSpeech_def Let_def try_block catchError_def)
  then have whole: "onMessage env (TranscriptionCompleted (Some transcript)) s = s2\<lparr>isProcessingResponse := False\<rparr>"
    using ne assms(2,4) by simp
  have "conversationHistory s1 =
      conversationHistory (appendUserTurn transcript
        ((emit (Console (UserLine transcript)) s)\<lparr>isProcessingResponse := True\<rparr>))"
    using generateResponse_history
      [of env "appendUserTurn transcript ((emit (Console (UserLine transcript)) s)\<lparr>isProcessingResponse := True\<rparr>)"]
    by (simp add: assms(5))
  then have user: "last (conversationHistory s1) = \<lparr>role = User, content = transcript\<rparr>"
    by (simp add: appendUserTurn_last)
  have "extends s1 (snd (checkToolCalls env tool_calls s1))"
    by (intro extends_checkToolCalls extends_refl)
  then have kept: "prefix (conversationHistory s1) (conversationHistory s2)"
    by (simp add: assms(6) extends_def)
  show ?thesis
    using whole user kept speakElevenLabs_muted [OF assms(7)] by simp
qed

theorem muted_utterance_witness:
  "isMuted mutedSession \<and> \<not> isPaused mutedSession \<and>
   onMessage chattyEnv (TranscriptionCompleted (Some (js ''Claw, is it sunny?''))) mutedSession =
     mutedSession
       \<lparr>conversationHistory := [\<lparr>role = User, content = js ''Claw, is it sunny?''\<rparr>],
        effects :=
          [Console (UserLine (js ''Claw, is it sunny?'')),
           ChatRequest [\<lparr>role = System, content = SYSTEM_PROMPT chattyEnv\<rparr>,
                        \<lparr>role = User, content = js ''Claw, is it sunny?''\<rparr>]],
        requests := 1\<rparr>"
proof -
  let ?s2 = "mutedSession
       \<lparr>conversationHistory := [\<lparr>role = User, content = js ''Claw, is it sunny?''\<rparr>],
        isProcessingResponse := True,
        effects :=
          [Console (UserLine (js ''Claw, is it sunny?'')),
           ChatRequest [\<lparr>role = System, content = SYSTEM_PROMPT chattyEnv\<rparr>,
                        \<lparr>role = User, content = js ''Claw, is it sunny?''\<rparr>]],
        requests := 1\<rparr>"
  have flags: "isMuted mutedSession" "\<not> isPaused mutedSession" "\<not> isProcessingResponse mutedSession"
    by (simp_all add: mutedSession_def initialSession_def)
  have gen: "generateResponse chattyEnv
           (appendUserTurn (js ''Claw, is it sunny?'')
              ((emit (Console (UserLine (js ''Claw, is it sunny?''))) mutedSession)\<lparr>isProcessingResponse := True\<rparr>)) =
         (Returned (Some (js ''Sunny today''), None), ?s2)"
    by (simp add: generateResponse_def appendUserTurn_def Let_def requested_def emit_def
        chattyEnv_def quietEnv_def mutedSession_def initialSession_def)
  have tools: "checkToolCalls chattyEnv None ?s2 = (Returned (), ?s2)"
    by (simp add: checkToolCalls_def)
  have still: "isMuted ?s2"
    by (simp add: mutedSession_def initialSession_def)
  show ?thesis
    using flags muted_utterance [OF flags trim_question(1) gen tools still]
    by simp
qed

text \<open>
  The claim C3 as written fails on the assistant turn: the reply to an utterance on a
  muted session has spoken content, and the history afterwards holds the user turn only.
\<close>

theorem muted_reply_counterexample:
  "isMuted mutedSession \<and> \<not> isPaused mutedSession \<and>
   openai chattyEnv 0
     [\<lparr>role = System, content = SYSTEM_PROMPT chattyEnv\<rparr>,
      \<lparr>role = User, content = js ''Claw, is it sunny?''\<rparr>] =
     ChatMessage (Some (js ''Sunny today'')) None \<and>
   conversationHistory
     (onMessage chattyEnv (TranscriptionCompleted (Some (js ''Claw, is it sunny?''))) mutedSession) =
     [\<lparr>role = User, content = js ''Claw, is it sunny?''\<rparr>]"
  by (simp add: trim_question handleUserSpeech_def handleUserSpeechTry_def generateResponse_def
      checkToolCalls_def speakResponse_def andThen_def catchError_def emit_def requested_def
      Let_def chattyEnv_def quietEnv_def appendUserTurn_def mutedSession_def initialSession_def)


section \<open>Arrivals during a cycle\<close>





















































end
